theory Spec2Isabelle
  imports Main "HOL-Library.Product_Lexorder"
begin

section \<open>The Game of Life grid of \<^verbatim>\<open>life.py\<close>\<close>

text \<open>
  The class \<^verbatim>\<open>Grid\<close> holds the side length \<^verbatim>\<open>size\<close> of a square torus and the
  set \<^verbatim>\<open>on_cells\<close> of the cells that are on. A cell is a tuple of two Python
  integers, which are unbounded, so a cell is a pair of \<^typ>\<open>int\<close>. Every method that
  mutates the object is a function returning the new object.
\<close>

type_synonym cell = "int \<times> int"

record grid =
  size :: int
  on_cells :: "cell set"

text \<open>
  The only exception the core can raise: \<^verbatim>\<open>%\<close> with a right operand of zero, in
  \<^verbatim>\<open>neighbours\<close> when \<^verbatim>\<open>size\<close> is 0.
\<close>

datatype error = ZeroDivisionError

text \<open>\<^verbatim>\<open>__init__\<close>: the given size and no cell on.\<close>

definition init :: "int \<Rightarrow> grid" where
  "init n = \<lparr>size = n, on_cells = {}\<rparr>"

text \<open>
  \<^verbatim>\<open>turn_on\<close> and \<^verbatim>\<open>turn_off\<close> take any iterable of cells, here a list, and
  replace \<^verbatim>\<open>on_cells\<close> by its union with, or its difference from, the cells given.
\<close>

definition turn_on :: "grid \<Rightarrow> cell list \<Rightarrow> grid" where
  "turn_on g cells = g\<lparr>on_cells := on_cells g \<union> set cells\<rparr>"

definition turn_off :: "grid \<Rightarrow> cell list \<Rightarrow> grid" where
  "turn_off g cells = g\<lparr>on_cells := on_cells g - set cells\<rparr>"

text \<open>
  \<^verbatim>\<open>neighbours\<close>: the two nested loops over the three rows and the three columns,
  skipping the pair equal to the cell itself. Python's \<^verbatim>\<open>%\<close> on integers is the
  floored remainder, as \<^term>\<open>(mod)\<close> on \<^typ>\<open>int\<close> is, for a divisor of either sign;
  for the divisor 0 Python raises where HOL returns the dividend, so that case is
  written out. The row and the column of the cell itself are not reduced.
\<close>

definition neighbours :: "grid \<Rightarrow> cell \<Rightarrow> error + cell set" where
  "neighbours g cell =
     (case cell of (r, c) \<Rightarrow>
        if size g = 0 then Inl ZeroDivisionError
        else Inr (fold (\<lambda>i_row nbrs.
                    fold (\<lambda>i_col nbrs.
                            if (i_row, i_col) = (r, c) then nbrs
                            else insert (i_row, i_col) nbrs)
                         [(c - 1) mod size g, c, (c + 1) mod size g] nbrs)
                  [(r - 1) mod size g, r, (r + 1) mod size g] {}))"

text \<open>\<^verbatim>\<open>on_neighbours\<close>: the on cells among the neighbours.\<close>

definition on_neighbours :: "grid \<Rightarrow> cell \<Rightarrow> error + cell set" where
  "on_neighbours g cell =
     (case neighbours g cell of
        Inl e \<Rightarrow> Inl e
      | Inr nbrs \<Rightarrow> Inr (on_cells g \<inter> nbrs))"

text \<open>
  The first loop of \<^verbatim>\<open>update\<close>, over the on cells, in the order of the list given.
  The state of the loop is the pair of \<^verbatim>\<open>new_on_cells\<close> and
  \<^verbatim>\<open>off_nbrs_of_on_cells\<close>; \<^verbatim>\<open>len\<close> of a set is its cardinality.
\<close>

fun survive_loop ::
  "grid \<Rightarrow> cell list \<Rightarrow> cell set \<times> cell set \<Rightarrow> error + cell set \<times> cell set" where
  "survive_loop g [] acc = Inr acc"
| "survive_loop g (cell # cells) (new_on_cells, off_nbrs_of_on_cells) =
     (case neighbours g cell of
        Inl e \<Rightarrow> Inl e
      | Inr nbrs \<Rightarrow>
          let on_nbrs = nbrs \<inter> on_cells g;
              new_on_cells' =
                (if card on_nbrs \<in> set [2, 3] then insert cell new_on_cells
                 else new_on_cells);
              off_nbrs = nbrs - on_nbrs
          in survive_loop g cells (new_on_cells', off_nbrs_of_on_cells \<union> off_nbrs))"

text \<open>The second loop of \<^verbatim>\<open>update\<close>, over the off neighbours of the on cells.\<close>

fun birth_loop :: "grid \<Rightarrow> cell list \<Rightarrow> cell set \<Rightarrow> error + cell set" where
  "birth_loop g [] new_on_cells = Inr new_on_cells"
| "birth_loop g (cell # cells) new_on_cells =
     (case on_neighbours g cell of
        Inl e \<Rightarrow> Inl e
      | Inr on_nbrs \<Rightarrow>
          birth_loop g cells
            (if card on_nbrs = 3 then insert cell new_on_cells else new_on_cells))"

text \<open>
  \<^verbatim>\<open>update\<close>. Python iterates over a set in an order of its own; the model takes
  the cells in ascending order, and \<open>survive_loop_order\<close> and \<open>birth_loop_order\<close>
  below show that the order does not matter. A Python set is finite, and so is
  \<^verbatim>\<open>on_cells\<close> wherever \<^verbatim>\<open>update\<close> is used. An exception leaves the object as it
  was: \<^verbatim>\<open>on_cells\<close> is assigned in the last statement only.
\<close>

definition update :: "grid \<Rightarrow> error + grid" where
  "update g =
     (case survive_loop g (sorted_list_of_set (on_cells g)) ({}, {}) of
        Inl e \<Rightarrow> Inl e
      | Inr (new_on_cells, off_nbrs_of_on_cells) \<Rightarrow>
          (case birth_loop g (sorted_list_of_set off_nbrs_of_on_cells) new_on_cells of
             Inl e \<Rightarrow> Inl e
           | Inr new_on_cells' \<Rightarrow> Inr (g\<lparr>on_cells := new_on_cells'\<rparr>)))"

subsection \<open>Vocabulary of the properties\<close>

text \<open>A cell of the grid: both coordinates in \<^verbatim>\<open>range(size)\<close>.\<close>

definition in_range :: "grid \<Rightarrow> cell \<Rightarrow> bool" where
  "in_range g cell = (0 \<le> fst cell \<and> fst cell < size g \<and> 0 \<le> snd cell \<and> snd cell < size g)"

text \<open>The set that \<^verbatim>\<open>neighbours\<close> builds, for a side length other than 0.\<close>

definition nbr_set :: "int \<Rightarrow> cell \<Rightarrow> cell set" where
  "nbr_set n cell =
     {(i, j). i \<in> {(fst cell - 1) mod n, fst cell, (fst cell + 1) mod n} \<and>
              j \<in> {(snd cell - 1) mod n, snd cell, (snd cell + 1) mod n} \<and>
              (i, j) \<noteq> cell}"

text \<open>The number of on neighbours of a cell in a grid, as \<^verbatim>\<open>update\<close> counts it.\<close>

definition on_count :: "grid \<Rightarrow> cell \<Rightarrow> nat" where
  "on_count g cell = card (on_cells g \<inter> nbr_set (size g) cell)"

text \<open>The set that \<^verbatim>\<open>update\<close> assigns to \<^verbatim>\<open>on_cells\<close>: the survivors and the births.\<close>

definition next_gen :: "grid \<Rightarrow> cell set" where
  "next_gen g =
     {c \<in> on_cells g. on_count g c = 2 \<or> on_count g c = 3} \<union>
     {c \<in> (\<Union>c \<in> on_cells g. nbr_set (size g) c - on_cells g). on_count g c = 3}"

text \<open>The invariant of the data model: every on cell is a cell of the grid.\<close>

definition all_in_range :: "grid \<Rightarrow> bool" where
  "all_in_range g = (\<forall>cell \<in> on_cells g. in_range g cell)"

text \<open>
  A cell away from the edges: the neighbours of such a cell do not wrap around.
\<close>

definition interior :: "int \<Rightarrow> cell \<Rightarrow> bool" where
  "interior n a \<longleftrightarrow> 0 < fst a \<and> fst a + 1 < n \<and> 0 < snd a \<and> snd a + 1 < n"

text \<open>Two different cells at distance one in the plane, and how many on cells are so.\<close>

definition near :: "cell \<Rightarrow> cell \<Rightarrow> bool" where
  "near a x \<longleftrightarrow> a \<noteq> x \<and> \<bar>fst a - fst x\<bar> \<le> 1 \<and> \<bar>snd a - snd x\<bar> \<le> 1"

definition plain_count :: "cell set \<Rightarrow> cell \<Rightarrow> nat" where
  "plain_count on x = card {a \<in> on. near a x}"

section \<open>What the loops compute\<close>

lemma fold_cols:
  "fold (\<lambda>j s. if (i, j) = rc then s else insert (i, j) s) js s =
     s \<union> {(i', j). i' = i \<and> j \<in> set js \<and> (i', j) \<noteq> rc}"
  by (induction js arbitrary: s) auto

lemma fold_rows:
  "fold (\<lambda>i s. fold (\<lambda>j s. if (i, j) = rc then s else insert (i, j) s) js s) is s =
     s \<union> {(i, j). i \<in> set is \<and> j \<in> set js \<and> (i, j) \<noteq> rc}"
  by (induction "is" arbitrary: s) (auto simp: fold_cols)

lemma neighbours_eq:
  "neighbours g cell =
     (if size g = 0 then Inl ZeroDivisionError else Inr (nbr_set (size g) cell))"
proof (cases cell)
  case (Pair r c)
  show ?thesis
    unfolding neighbours_def Pair prod.case fold_rows
    by (auto simp: nbr_set_def)
qed

lemma finite_nbr_set: "finite (nbr_set n cell)"
proof -
  have "nbr_set n cell \<subseteq>
          {(fst cell - 1) mod n, fst cell, (fst cell + 1) mod n} \<times>
          {(snd cell - 1) mod n, snd cell, (snd cell + 1) mod n}"
    by (auto simp: nbr_set_def)
  then show ?thesis
    by (rule finite_subset) simp
qed

lemma self_notin_nbr_set: "cell \<notin> nbr_set n cell"
  by (cases cell) (simp add: nbr_set_def)

lemma on_neighbours_eq:
  "on_neighbours g cell =
     (if size g = 0 then Inl ZeroDivisionError
      else Inr (on_cells g \<inter> nbr_set (size g) cell))"
  by (simp add: on_neighbours_def neighbours_eq)

lemma survive_loop_eq:
  "size g \<noteq> 0 \<Longrightarrow>
   survive_loop g cells (new, off) =
     Inr (new \<union> {c \<in> set cells. on_count g c = 2 \<or> on_count g c = 3},
          off \<union> (\<Union>c \<in> set cells. nbr_set (size g) c - on_cells g))"
proof (induction cells arbitrary: new off)
  case Nil
  show ?case by simp
next
  case (Cons c cells)
  have step: "survive_loop g (c # cells) (new, off) =
      survive_loop g cells
        (if on_count g c = 2 \<or> on_count g c = 3 then insert c new else new,
         off \<union> (nbr_set (size g) c - on_cells g))"
    using Cons.prems
    by (simp add: neighbours_eq on_count_def Let_def Int_commute Diff_Int)
  show ?case
    unfolding step Cons.IH [OF Cons.prems] by auto
qed

lemma survive_loop_zero:
  "size g = 0 \<Longrightarrow>
   survive_loop g cells acc = (if cells = [] then Inr acc else Inl ZeroDivisionError)"
  by (cases cells; cases acc) (simp_all add: neighbours_eq)

lemma birth_loop_eq:
  "size g \<noteq> 0 \<Longrightarrow>
   birth_loop g cells new = Inr (new \<union> {c \<in> set cells. on_count g c = 3})"
proof (induction cells arbitrary: new)
  case Nil
  show ?case by simp
next
  case (Cons c cells)
  have step: "birth_loop g (c # cells) new =
      birth_loop g cells (if on_count g c = 3 then insert c new else new)"
    using Cons.prems by (simp add: on_neighbours_eq on_count_def)
  show ?case
    unfolding step Cons.IH [OF Cons.prems] by auto
qed

lemma birth_loop_zero:
  "size g = 0 \<Longrightarrow>
   birth_loop g cells new = (if cells = [] then Inr new else Inl ZeroDivisionError)"
  by (cases cells) (simp_all add: on_neighbours_eq)

text \<open>The order in which a loop takes the cells of a set does not change its result.\<close>

lemma survive_loop_order:
  "set cells = set cells' \<Longrightarrow> survive_loop g cells acc = survive_loop g cells' acc"
proof (cases "size g = 0")
  case True
  assume "set cells = set cells'"
  then have "cells = [] \<longleftrightarrow> cells' = []"
    by (metis set_empty)
  then show ?thesis
    by (simp add: survive_loop_zero [OF True])
next
  case False
  assume "set cells = set cells'"
  then show ?thesis
    by (cases acc) (simp add: survive_loop_eq [OF False])
qed

lemma birth_loop_order:
  "set cells = set cells' \<Longrightarrow> birth_loop g cells new = birth_loop g cells' new"
proof (cases "size g = 0")
  case True
  assume "set cells = set cells'"
  then have "cells = [] \<longleftrightarrow> cells' = []"
    by (metis set_empty)
  then show ?thesis
    by (simp add: birth_loop_zero [OF True])
next
  case False
  assume "set cells = set cells'"
  then show ?thesis
    by (simp add: birth_loop_eq [OF False])
qed

lemma update_eq:
  assumes "size g \<noteq> 0" and "finite (on_cells g)"
  shows "update g = Inr (g\<lparr>on_cells := next_gen g\<rparr>)"
proof -
  have "finite (\<Union>c \<in> on_cells g. nbr_set (size g) c - on_cells g)"
    using assms(2) by (simp add: finite_nbr_set)
  then show ?thesis
    using assms
    by (simp add: update_def survive_loop_eq birth_loop_eq next_gen_def)
qed

section \<open>The torus\<close>

lemma adj_sym:
  fixes n r i :: int
  assumes "1 \<le> n" "0 \<le> r" "r < n" "i \<in> {(r - 1) mod n, r, (r + 1) mod n}"
  shows "r \<in> {(i - 1) mod n, i, (i + 1) mod n} \<and> 0 \<le> i \<and> i < n"
  using assms by (auto simp: mod_simps)

lemma nbr_set_in_range:
  "1 \<le> size g \<Longrightarrow> in_range g cell \<Longrightarrow> c \<in> nbr_set (size g) cell \<Longrightarrow> in_range g c"
  by (auto simp: nbr_set_def in_range_def)

lemma nbr_set_sym:
  assumes n: "1 \<le> n" and x: "0 \<le> fst x" "fst x < n" "0 \<le> snd x" "snd x < n"
    and y: "y \<in> nbr_set n x"
  shows "x \<in> nbr_set n y"
proof -
  from y have r: "fst y \<in> {(fst x - 1) mod n, fst x, (fst x + 1) mod n}"
    and c: "snd y \<in> {(snd x - 1) mod n, snd x, (snd x + 1) mod n}"
    and ne: "y \<noteq> x"
    by (auto simp: nbr_set_def)
  from adj_sym [OF n x(1,2) r] adj_sym [OF n x(3,4) c] ne show ?thesis
    by (simp add: nbr_set_def case_prod_unfold)
qed


lemma finite_all_in_range:
  assumes "all_in_range g"
  shows "finite (on_cells g)"
proof -
  have "on_cells g \<subseteq> {0..<size g} \<times> {0..<size g}"
    using assms by (auto simp: all_in_range_def in_range_def)
  then show ?thesis
    by (rule finite_subset) simp
qed

lemma on_count_pos:
  assumes "on_count g cell = 3"
  obtains c where "c \<in> on_cells g" "c \<in> nbr_set (size g) cell"
proof -
  from assms have "card (on_cells g \<inter> nbr_set (size g) cell) \<noteq> 0"
    by (simp add: on_count_def)
  then have "on_cells g \<inter> nbr_set (size g) cell \<noteq> {}"
    by (metis card.empty)
  then show ?thesis
    using that by blast
qed

lemma next_gen_mem:
  "cell \<in> next_gen g \<longleftrightarrow>
      (cell \<in> on_cells g \<and> (on_count g cell = 2 \<or> on_count g cell = 3)) \<or>
      (cell \<notin> on_cells g \<and> (\<exists>c \<in> on_cells g. cell \<in> nbr_set (size g) c) \<and>
       on_count g cell = 3)"
  unfolding next_gen_def by blast

lemma next_gen_iff:
  assumes "1 \<le> size g" and "in_range g cell \<or> cell \<in> on_cells g"
  shows "cell \<in> next_gen g \<longleftrightarrow>
           (cell \<in> on_cells g \<and> (on_count g cell = 2 \<or> on_count g cell = 3)) \<or>
           (cell \<notin> on_cells g \<and> on_count g cell = 3)"
proof -
  have "\<exists>c \<in> on_cells g. cell \<in> nbr_set (size g) c"
    if off: "cell \<notin> on_cells g" and three: "on_count g cell = 3"
  proof -
    from three obtain c where c: "c \<in> on_cells g" "c \<in> nbr_set (size g) cell"
      by (rule on_count_pos)
    from assms(2) off
    have "0 \<le> fst cell" "fst cell < size g" "0 \<le> snd cell" "snd cell < size g"
      by (simp_all add: in_range_def)
    then have "cell \<in> nbr_set (size g) c"
      using c(2) by (rule nbr_set_sym [OF assms(1)])
    with c(1) show ?thesis ..
  qed
  then show ?thesis
    unfolding next_gen_mem by blast
qed

lemma update_cases:
  "update g = Inr g' \<Longrightarrow> \<exists>s. g' = g\<lparr>on_cells := s\<rparr>"
  by (auto simp: update_def split: sum.splits prod.splits)

lemma update_returns:
  assumes "size g \<noteq> 0"
  shows "\<exists>s. update g = Inr (g\<lparr>on_cells := s\<rparr>)"
proof -
  obtain new off where "survive_loop g (sorted_list_of_set (on_cells g)) ({}, {}) = Inr (new, off)"
    by (simp add: survive_loop_eq [OF assms])
  moreover obtain new' where "birth_loop g (sorted_list_of_set off) new = Inr new'"
    by (simp add: birth_loop_eq [OF assms])
  ultimately have "update g = Inr (g\<lparr>on_cells := new'\<rparr>)"
    by (simp add: update_def)
  then show ?thesis ..
qed

section \<open>Patterns away from the edges\<close>

lemma nbr_set_interior_iff:
  assumes "0 < fst a" "fst a + 1 < n" "0 < snd a" "snd a + 1 < n"
  shows "x \<in> nbr_set n a \<longleftrightarrow>
           x \<noteq> a \<and> \<bar>fst x - fst a\<bar> \<le> 1 \<and> \<bar>snd x - snd a\<bar> \<le> 1"
proof -
  from assms have "(fst a - 1) mod n = fst a - 1" "(fst a + 1) mod n = fst a + 1"
    "(snd a - 1) mod n = snd a - 1" "(snd a + 1) mod n = snd a + 1"
    by simp_all
  then show ?thesis
    by (cases x) (auto simp: nbr_set_def)
qed

lemma on_nbrs_interior:
  assumes all: "\<forall>a \<in> on_cells g. interior (size g) a"
    and x: "0 \<le> fst x" "fst x < size g" "0 \<le> snd x" "snd x < size g"
  shows "on_cells g \<inter> nbr_set (size g) x =
           {a \<in> on_cells g. a \<noteq> x \<and> \<bar>fst a - fst x\<bar> \<le> 1 \<and> \<bar>snd a - snd x\<bar> \<le> 1}"
proof -
  from all have on: "\<And>a. a \<in> on_cells g \<Longrightarrow> interior (size g) a" by blast
  from x have n: "1 \<le> size g" by simp
  have "a \<in> nbr_set (size g) x \<longleftrightarrow>
          a \<noteq> x \<and> \<bar>fst a - fst x\<bar> \<le> 1 \<and> \<bar>snd a - snd x\<bar> \<le> 1"
    if a: "a \<in> on_cells g" for a
  proof -
    from on [OF a] have i: "0 < fst a" "fst a + 1 < size g" "0 < snd a" "snd a + 1 < size g"
      by (simp_all add: interior_def)
    then have r: "0 \<le> fst a" "fst a < size g" "0 \<le> snd a" "snd a < size g"
      by simp_all
    have "a \<in> nbr_set (size g) x \<longleftrightarrow> x \<in> nbr_set (size g) a"
      using nbr_set_sym [OF n x] nbr_set_sym [OF n r] by blast
    also have "\<dots> \<longleftrightarrow> x \<noteq> a \<and> \<bar>fst x - fst a\<bar> \<le> 1 \<and> \<bar>snd x - snd a\<bar> \<le> 1"
      by (rule nbr_set_interior_iff [OF i])
    finally show ?thesis
      by (auto simp: abs_minus_commute)
  qed
  then show ?thesis
    by blast
qed


lemma near_sym: "near a x \<longleftrightarrow> near x a"
  by (auto simp: near_def abs_minus_commute)

lemma finite_near: "finite {a \<in> on. near a x}"
proof (rule finite_subset)
  show "{a \<in> on. near a x} \<subseteq> {fst x - 1 .. fst x + 1} \<times> {snd x - 1 .. snd x + 1}"
    by (auto simp: near_def)
qed simp

lemma plain_count_empty: "plain_count {} x = 0"
  by (simp add: plain_count_def)

lemma plain_count_insert:
  assumes "a \<notin> on"
  shows "plain_count (insert a on) x = (if near a x then 1 else 0) + plain_count on x"
proof (cases "near a x")
  case True
  then have "{b \<in> insert a on. near b x} = insert a {b \<in> on. near b x}"
    by auto
  moreover have "a \<notin> {b \<in> on. near b x}"
    using assms by simp
  ultimately show ?thesis
    using True by (simp add: plain_count_def finite_near)
next
  case False
  then have "{b \<in> insert a on. near b x} = {b \<in> on. near b x}"
    by auto
  with False show ?thesis
    by (simp add: plain_count_def)
qed

lemma plain_count_pos:
  assumes "plain_count on x \<noteq> 0"
  obtains a where "a \<in> on" "near a x"
proof -
  from assms have "{a \<in> on. near a x} \<noteq> {}"
    unfolding plain_count_def by (metis card.empty)
  then show ?thesis
    using that by blast
qed

lemma next_gen_interior:
  assumes all: "\<forall>a \<in> on_cells g. interior (size g) a"
  shows "x \<in> next_gen g \<longleftrightarrow>
           (x \<in> on_cells g \<and> (plain_count (on_cells g) x = 2 \<or> plain_count (on_cells g) x = 3)) \<or>
           (x \<notin> on_cells g \<and> plain_count (on_cells g) x = 3)"
proof (cases "x \<in> on_cells g \<or> plain_count (on_cells g) x \<noteq> 0")
  case True
  from all have on: "\<And>a. a \<in> on_cells g \<Longrightarrow> interior (size g) a" by blast
  have x: "0 \<le> fst x \<and> fst x < size g \<and> 0 \<le> snd x \<and> snd x < size g"
  proof (cases "x \<in> on_cells g")
    case True
    from on [OF this] show ?thesis
      by (simp add: interior_def)
  next
    case False
    with True have "plain_count (on_cells g) x \<noteq> 0"
      by simp
    then obtain a where "a \<in> on_cells g" "near a x"
      by (rule plain_count_pos)
    with on [of a] show ?thesis
      unfolding interior_def near_def by linarith
  qed
  then have "on_count g x = plain_count (on_cells g) x"
    by (simp add: on_count_def plain_count_def near_def on_nbrs_interior [OF all])
  moreover from x have "1 \<le> size g" "in_range g x"
    by (simp_all add: in_range_def)
  ultimately show ?thesis
    using next_gen_iff [of g x] by simp
next
  case False
  from all have on: "\<And>a. a \<in> on_cells g \<Longrightarrow> interior (size g) a" by blast
  from False have off: "x \<notin> on_cells g" and zero: "plain_count (on_cells g) x = 0"
    by simp_all
  have "x \<notin> nbr_set (size g) c" if c: "c \<in> on_cells g" for c
  proof
    assume "x \<in> nbr_set (size g) c"
    with on [OF c] have "near x c"
      by (simp add: interior_def nbr_set_interior_iff near_def)
    then have "c \<in> {a \<in> on_cells g. near a x}"
      using c by (simp add: near_sym)
    then have "plain_count (on_cells g) x \<noteq> 0"
      unfolding plain_count_def using finite_near [of "on_cells g" x]
      by (metis card_0_eq empty_iff)
    with zero show False by simp
  qed
  with off zero show ?thesis
    by (simp add: next_gen_mem)
qed

lemma next_gen_far:
  assumes all: "\<forall>a \<in> on_cells g. interior (size g) a"
    and off: "x \<notin> on_cells g"
    and far: "\<forall>a \<in> on_cells g. \<not> near a x"
  shows "x \<notin> next_gen g"
proof -
  from far have "{a \<in> on_cells g. near a x} = {}"
    by blast
  then have "plain_count (on_cells g) x = 0"
    by (simp only: plain_count_def card.empty)
  with off show ?thesis
    by (simp add: next_gen_interior [OF all])
qed

lemma next_gen_row:
  assumes "6 \<le> size g" and "on_cells g = {(2, 1), (2, 2), (2, 3)}"
  shows "next_gen g = {(1, 2), (2, 2), (3, 2)}"
proof -
  have on: "\<forall>a \<in> on_cells g. interior (size g) a"
    using assms by (simp add: interior_def)
  note rule = next_gen_interior [OF on, unfolded assms(2)]
  have "(i, j) \<in> next_gen g \<longleftrightarrow> (i, j) \<in> {(1, 2), (2, 2), (3, 2)}" for i j
  proof (cases "1 \<le> i \<and> i \<le> 3 \<and> 0 \<le> j \<and> j \<le> 4")
    case True
    then have "i = 1 \<or> i = 2 \<or> i = 3" "j = 0 \<or> j = 1 \<or> j = 2 \<or> j = 3 \<or> j = 4"
      by arith+
    then show ?thesis
      by (elim disjE; simp add: rule plain_count_insert plain_count_empty near_def)
  next
    case False
    then have "(i, j) \<notin> on_cells g" "\<forall>a \<in> on_cells g. \<not> near a (i, j)"
      unfolding assms(2) near_def by auto
    then have "(i, j) \<notin> next_gen g"
      by (rule next_gen_far [OF on])
    moreover from False have "(i, j) \<notin> {(1, 2), (2, 2), (3, 2)}"
      by auto
    ultimately show ?thesis
      by simp
  qed
  then show ?thesis
    by auto
qed

lemma next_gen_col:
  assumes "6 \<le> size g" and "on_cells g = {(1, 2), (2, 2), (3, 2)}"
  shows "next_gen g = {(2, 1), (2, 2), (2, 3)}"
proof -
  have on: "\<forall>a \<in> on_cells g. interior (size g) a"
    using assms by (simp add: interior_def)
  note rule = next_gen_interior [OF on, unfolded assms(2)]
  have "(i, j) \<in> next_gen g \<longleftrightarrow> (i, j) \<in> {(2, 1), (2, 2), (2, 3)}" for i j
  proof (cases "0 \<le> i \<and> i \<le> 4 \<and> 1 \<le> j \<and> j \<le> 3")
    case True
    then have "i = 0 \<or> i = 1 \<or> i = 2 \<or> i = 3 \<or> i = 4" "j = 1 \<or> j = 2 \<or> j = 3"
      by arith+
    then show ?thesis
      by (elim disjE; simp add: rule plain_count_insert plain_count_empty near_def)
  next
    case False
    then have "(i, j) \<notin> on_cells g" "\<forall>a \<in> on_cells g. \<not> near a (i, j)"
      unfolding assms(2) near_def by auto
    then have "(i, j) \<notin> next_gen g"
      by (rule next_gen_far [OF on])
    moreover from False have "(i, j) \<notin> {(2, 1), (2, 2), (2, 3)}"
      by auto
    ultimately show ?thesis
      by simp
  qed
  then show ?thesis
    by auto
qed

lemma next_gen_block:
  assumes "5 \<le> size g" and "on_cells g = {(1, 1), (1, 2), (2, 1), (2, 2)}"
  shows "next_gen g = {(1, 1), (1, 2), (2, 1), (2, 2)}"
proof -
  have on: "\<forall>a \<in> on_cells g. interior (size g) a"
    using assms by (simp add: interior_def)
  note rule = next_gen_interior [OF on, unfolded assms(2)]
  have "(i, j) \<in> next_gen g \<longleftrightarrow> (i, j) \<in> {(1, 1), (1, 2), (2, 1), (2, 2)}" for i j
  proof (cases "0 \<le> i \<and> i \<le> 3 \<and> 0 \<le> j \<and> j \<le> 3")
    case True
    then have "i = 0 \<or> i = 1 \<or> i = 2 \<or> i = 3" "j = 0 \<or> j = 1 \<or> j = 2 \<or> j = 3"
      by arith+
    then show ?thesis
      by (elim disjE; simp add: rule plain_count_insert plain_count_empty near_def)
  next
    case False
    then have "(i, j) \<notin> on_cells g" "\<forall>a \<in> on_cells g. \<not> near a (i, j)"
      unfolding assms(2) near_def by auto
    then have "(i, j) \<notin> next_gen g"
      by (rule next_gen_far [OF on])
    moreover from False have "(i, j) \<notin> {(1, 1), (1, 2), (2, 1), (2, 2)}"
      by auto
    ultimately show ?thesis
      by simp
  qed
  then show ?thesis
    by auto
qed

section \<open>Outside the data model\<close>

text \<open>
  The specification takes \<^verbatim>\<open>size\<close> to be positive and coordinates to lie in
  \<^verbatim>\<open>range(size)\<close>, and the properties below are stated there. Two evaluations of
  the model show what the code does elsewhere. With \<^verbatim>\<open>size\<close> 0 and a cell on,
  \<^verbatim>\<open>update\<close> raises. A pair outside the grid can have three on cells among what
  \<^verbatim>\<open>neighbours\<close> returns for it without being a neighbour of any of them, since its
  own row and column are not reduced: \<open>(10, 10)\<close> on a grid of size 5 is not turned on.
\<close>

lemma update_size_zero:
  "update \<lparr>size = 0, on_cells = {(0, 0)}\<rparr> = Inl ZeroDivisionError"
  by code_simp

lemma update_outside_grid:
  "update \<lparr>size = 5, on_cells = {(1, 4), (4, 1), (4, 4)}\<rparr> =
     Inr \<lparr>size = 5, on_cells = {(0, 0)}\<rparr> \<and>
   on_neighbours \<lparr>size = 5, on_cells = {(1, 4), (4, 1), (4, 4)}\<rparr> (10, 10) =
     Inr {(1, 4), (4, 1), (4, 4)}"
  by code_simp

section \<open>The properties of the specification\<close>

text \<open>
  C1. One call of \<^verbatim>\<open>update\<close> applies the rule of the game to the state before the
  call: a cell is on afterwards if and only if it was on and had exactly 2 or 3 on
  neighbours, or it was off and had exactly 3 on neighbours, all counted by
  \<^verbatim>\<open>on_neighbours\<close> in the state before the call. The grid has a positive size
  and a finite set of on cells; the cell is a cell of the grid, or any cell that is on.
\<close>

theorem update_rule:
  assumes "1 \<le> size g" and "finite (on_cells g)"
    and "in_range g cell \<or> cell \<in> on_cells g"
  shows "\<exists>g' on_nbrs. update g = Inr g' \<and> on_neighbours g cell = Inr on_nbrs \<and>
           (cell \<in> on_cells g' \<longleftrightarrow>
              (cell \<in> on_cells g \<and> (card on_nbrs = 2 \<or> card on_nbrs = 3)) \<or>
              (cell \<notin> on_cells g \<and> card on_nbrs = 3))"
proof -
  from assms(1) have nz: "size g \<noteq> 0" by simp
  show ?thesis
    using next_gen_iff [OF assms(1,3)]
    by (simp add: update_eq [OF nz assms(2)] on_neighbours_eq nz on_count_def)
qed

theorem update_rule_witness:
  "1 \<le> size \<lparr>size = 5, on_cells = {(1, 1), (1, 2), (1, 3)}\<rparr> \<and>
   finite (on_cells \<lparr>size = 5, on_cells = {(1, 1), (1, 2), (1, 3)}\<rparr>) \<and>
   in_range \<lparr>size = 5, on_cells = {(1, 1), (1, 2), (1, 3)}\<rparr> (0, 2) \<and>
   (\<exists>g'. update \<lparr>size = 5, on_cells = {(1, 1), (1, 2), (1, 3)}\<rparr> = Inr g' \<and>
         (0, 2) \<in> on_cells g')"
proof -
  let ?g = "\<lparr>size = 5, on_cells = {(1, 1), (1, 2), (1, 3)}\<rparr>"
  have h: "1 \<le> size ?g" "finite (on_cells ?g)" "in_range ?g (0, 2)"
    by (simp_all add: in_range_def)
  have n: "on_neighbours ?g (0, 2) = Inr {(1, 1), (1, 2), (1, 3)}"
    by (simp add: on_neighbours_eq nbr_set_def)
  from h(3) have "in_range ?g (0, 2) \<or> (0, 2) \<in> on_cells ?g" ..
  from update_rule [OF h(1,2) this] n h show ?thesis
    by auto
qed

text \<open>
  C2. On a grid of size N of at least 3, \<^verbatim>\<open>neighbours((0, 0))\<close> is the set of the
  eight cells around the origin on the torus, among them \<open>(N-1, N-1)\<close>, \<open>(N-1, 0)\<close>
  and \<open>(0, N-1)\<close>; it does not contain \<open>(0, 0)\<close> and has exactly 8 elements.
\<close>

theorem neighbours_origin:
  assumes "3 \<le> size g"
  shows "\<exists>nbrs. neighbours g (0, 0) = Inr nbrs \<and>
           nbrs = {(size g - 1, size g - 1), (size g - 1, 0), (size g - 1, 1),
                   (0, size g - 1), (0, 1),
                   (1, size g - 1), (1, 0), (1, 1)} \<and>
           (0, 0) \<notin> nbrs \<and> card nbrs = 8"
proof -
  from assms have m: "(- 1) mod size g = size g - 1" "1 mod size g = 1"
    by (simp_all add: zmod_minus1)
  have "nbr_set (size g) (0, 0) =
          {(size g - 1, size g - 1), (size g - 1, 0), (size g - 1, 1),
           (0, size g - 1), (0, 1), (1, size g - 1), (1, 0), (1, 1)}"
    using assms by (auto simp: nbr_set_def m)
  then show ?thesis
    using assms by (simp add: neighbours_eq)
qed

theorem neighbours_origin_witness:
  "3 \<le> size (init 3) \<and>
   (\<exists>nbrs. neighbours (init 3) (0, 0) = Inr nbrs \<and>
      (2, 2) \<in> nbrs \<and> (2, 0) \<in> nbrs \<and> (0, 2) \<in> nbrs \<and> (0, 0) \<notin> nbrs \<and> card nbrs = 8)"
proof -
  have h: "3 \<le> size (init 3)"
    by (simp add: init_def)
  from neighbours_origin [OF h] h show ?thesis
    by (auto simp: init_def)
qed

text \<open>
  C3. On a grid of size at least 6 whose on cells are exactly the row
  \<open>{(2,1), (2,2), (2,3)}\<close>, one \<^verbatim>\<open>update\<close> gives exactly the column
  \<open>{(1,2), (2,2), (3,2)}\<close>, and a second \<^verbatim>\<open>update\<close> gives back the grid with the row.
\<close>

theorem blinker_oscillates:
  assumes "6 \<le> size g" and "on_cells g = {(2, 1), (2, 2), (2, 3)}"
  shows "update g = Inr (g\<lparr>on_cells := {(1, 2), (2, 2), (3, 2)}\<rparr>) \<and>
         update (g\<lparr>on_cells := {(1, 2), (2, 2), (3, 2)}\<rparr>) = Inr g"
proof -
  let ?g' = "g\<lparr>on_cells := {(1, 2), (2, 2), (3, 2)}\<rparr>"
  from assms(1) have nz: "size g \<noteq> 0" "size ?g' \<noteq> 0" "6 \<le> size ?g'"
    by simp_all
  have fin: "finite (on_cells g)" "finite (on_cells ?g')"
    by (simp_all add: assms(2))
  have "next_gen ?g' = {(2, 1), (2, 2), (2, 3)}"
    by (rule next_gen_col [OF nz(3)]) simp
  moreover have "g\<lparr>on_cells := {(2, 1), (2, 2), (2, 3)}\<rparr> = g"
    by (simp flip: assms(2))
  ultimately show ?thesis
    by (simp add: update_eq [OF nz(1) fin(1)] update_eq [OF nz(2) fin(2)]
          next_gen_row [OF assms])
qed

theorem blinker_oscillates_witness:
  "6 \<le> size \<lparr>size = 6, on_cells = {(2, 1), (2, 2), (2, 3)}\<rparr> \<and>
   update \<lparr>size = 6, on_cells = {(2, 1), (2, 2), (2, 3)}\<rparr> =
     Inr \<lparr>size = 6, on_cells = {(1, 2), (2, 2), (3, 2)}\<rparr> \<and>
   update \<lparr>size = 6, on_cells = {(1, 2), (2, 2), (3, 2)}\<rparr> =
     Inr \<lparr>size = 6, on_cells = {(2, 1), (2, 2), (2, 3)}\<rparr>"
  using blinker_oscillates [of "\<lparr>size = 6, on_cells = {(2, 1), (2, 2), (2, 3)}\<rparr>"]
  by simp

text \<open>
  C4. On a grid of size at least 5 whose on cells are exactly the block
  \<open>{(1,1), (1,2), (2,1), (2,2)}\<close>, \<^verbatim>\<open>update\<close> leaves \<^verbatim>\<open>on_cells\<close> equal to the
  same four cells.
\<close>

theorem block_still_life:
  assumes "5 \<le> size g" and "on_cells g = {(1, 1), (1, 2), (2, 1), (2, 2)}"
  shows "\<exists>g'. update g = Inr g' \<and> on_cells g' = {(1, 1), (1, 2), (2, 1), (2, 2)} \<and> g' = g"
proof -
  from assms(1) have nz: "size g \<noteq> 0"
    by simp
  have fin: "finite (on_cells g)"
    by (simp add: assms(2))
  have "g\<lparr>on_cells := {(1, 1), (1, 2), (2, 1), (2, 2)}\<rparr> = g"
    by (simp flip: assms(2))
  then have "update g = Inr g"
    by (simp add: update_eq [OF nz fin] next_gen_block [OF assms])
  with assms(2) show ?thesis
    by simp
qed

theorem block_still_life_witness:
  "5 \<le> size \<lparr>size = 5, on_cells = {(1, 1), (1, 2), (2, 1), (2, 2)}\<rparr> \<and>
   update \<lparr>size = 5, on_cells = {(1, 1), (1, 2), (2, 1), (2, 2)}\<rparr> =
     Inr \<lparr>size = 5, on_cells = {(1, 1), (1, 2), (2, 1), (2, 2)}\<rparr>"
  using block_still_life [of "\<lparr>size = 5, on_cells = {(1, 1), (1, 2), (2, 1), (2, 2)}\<rparr>"]
  by simp

text \<open>
  C5. On a grid of size at least 1 in which every on cell has both coordinates in
  \<^verbatim>\<open>range(size)\<close>, the same holds after \<^verbatim>\<open>update\<close>, after \<^verbatim>\<open>turn_off\<close> of any
  cells, and after \<^verbatim>\<open>turn_on\<close> of cells that are in range; and every neighbour of a
  cell in range is in range.
\<close>

theorem in_range_preserved:
  assumes "1 \<le> size g" and "all_in_range g"
  shows "(\<exists>g'. update g = Inr g' \<and> all_in_range g') \<and>
         all_in_range (turn_off g cells) \<and>
         ((\<forall>cell \<in> set cells'. in_range g cell) \<longrightarrow> all_in_range (turn_on g cells')) \<and>
         (\<forall>cell. in_range g cell \<longrightarrow>
            (\<exists>nbrs. neighbours g cell = Inr nbrs \<and> (\<forall>c \<in> nbrs. in_range g c)))"
proof -
  from assms(1) have nz: "size g \<noteq> 0" by simp
  have "in_range g c" if "c \<in> next_gen g" for c
  proof (cases "c \<in> on_cells g")
    case True
    with assms(2) show ?thesis
      by (simp add: all_in_range_def)
  next
    case False
    with that obtain c' where "c' \<in> on_cells g" "c \<in> nbr_set (size g) c'"
      by (auto simp: next_gen_def)
    with assms(2) show ?thesis
      by (auto simp: all_in_range_def intro: nbr_set_in_range [OF assms(1)])
  qed
  then have "all_in_range (g\<lparr>on_cells := next_gen g\<rparr>)"
    by (simp add: all_in_range_def in_range_def)
  then have 1: "\<exists>g'. update g = Inr g' \<and> all_in_range g'"
    by (simp add: update_eq [OF nz finite_all_in_range [OF assms(2)]])
  have 2: "all_in_range (turn_off g cells)"
    using assms(2) by (simp add: all_in_range_def turn_off_def in_range_def)
  have 3: "(\<forall>cell \<in> set cells'. in_range g cell) \<longrightarrow> all_in_range (turn_on g cells')"
    using assms(2) by (auto simp: all_in_range_def turn_on_def in_range_def)
  have 4: "\<forall>cell. in_range g cell \<longrightarrow>
            (\<exists>nbrs. neighbours g cell = Inr nbrs \<and> (\<forall>c \<in> nbrs. in_range g c))"
    using nbr_set_in_range [OF assms(1)] by (simp add: neighbours_eq nz)
  from 1 2 3 4 show ?thesis by blast
qed

theorem in_range_preserved_witness:
  "1 \<le> size \<lparr>size = 5, on_cells = {(1, 1), (1, 2), (1, 3)}\<rparr> \<and>
   all_in_range \<lparr>size = 5, on_cells = {(1, 1), (1, 2), (1, 3)}\<rparr> \<and>
   (\<exists>g'. update \<lparr>size = 5, on_cells = {(1, 1), (1, 2), (1, 3)}\<rparr> = Inr g' \<and>
         all_in_range g') \<and>
   all_in_range (turn_off \<lparr>size = 5, on_cells = {(1, 1), (1, 2), (1, 3)}\<rparr> [(1, 1), (7, 7)]) \<and>
   all_in_range (turn_on \<lparr>size = 5, on_cells = {(1, 1), (1, 2), (1, 3)}\<rparr> [(0, 0), (4, 4)]) \<and>
   (\<exists>nbrs. neighbours \<lparr>size = 5, on_cells = {(1, 1), (1, 2), (1, 3)}\<rparr> (0, 0) = Inr nbrs \<and>
         (4, 4) \<in> nbrs \<and> in_range \<lparr>size = 5, on_cells = {(1, 1), (1, 2), (1, 3)}\<rparr> (4, 4))"
proof -
  let ?g = "\<lparr>size = 5, on_cells = {(1, 1), (1, 2), (1, 3)}\<rparr>"
  have h: "1 \<le> size ?g" "all_in_range ?g"
    by (simp_all add: all_in_range_def in_range_def)
  have c: "\<forall>cell \<in> set [(0, 0), (4, 4)]. in_range ?g cell" "in_range ?g (0, 0)"
    by (simp_all add: in_range_def)
  have n: "neighbours ?g (0, 0) =
      Inr {(4, 4), (4, 0), (4, 1), (0, 4), (0, 1), (1, 4), (1, 0), (1, 1)}"
    by (auto simp: neighbours_eq nbr_set_def)
  from in_range_preserved [OF h, of "[(1, 1), (7, 7)]" "[(0, 0), (4, 4)]"] c n h
  show ?thesis
    by (simp add: in_range_def)
qed

text \<open>
  C6. On a grid of size 1 or 2, the neighbours of a cell in range do not contain the
  cell itself and are fewer than 8.
\<close>

theorem small_grid_neighbours:
  assumes "size g = 1 \<or> size g = 2" and "in_range g cell"
  shows "\<exists>nbrs. neighbours g cell = Inr nbrs \<and> cell \<notin> nbrs \<and> card nbrs < 8"
proof -
  have sub: "nbr_set (size g) cell \<subseteq> {0..<size g} \<times> {0..<size g}"
    using assms by (auto simp: nbr_set_def in_range_def)
  have "card (nbr_set (size g) cell) \<le> card ({0..<size g} \<times> {0..<size g})"
    by (rule card_mono [OF _ sub]) simp
  also have "\<dots> \<le> 4"
    using assms(1) by (auto simp: card_cartesian_product)
  finally have "card (nbr_set (size g) cell) < 8" by simp
  then show ?thesis
    using assms(1) by (auto simp: neighbours_eq self_notin_nbr_set)
qed

theorem small_grid_neighbours_witness:
  "(size (init 2) = 1 \<or> size (init 2) = 2) \<and> in_range (init 2) (0, 1) \<and>
   (\<exists>nbrs. neighbours (init 2) (0, 1) = Inr nbrs \<and> nbrs = {(0, 0), (1, 0), (1, 1)} \<and>
      (0, 1) \<notin> nbrs \<and> card nbrs < 8)"
proof -
  have h: "size (init 2) = 1 \<or> size (init 2) = 2" "in_range (init 2) (0, 1)"
    by (simp_all add: init_def in_range_def)
  have "neighbours (init 2) (0, 1) = Inr {(0, 0), (1, 0), (1, 1)}"
    by (auto simp: neighbours_eq nbr_set_def init_def)
  with small_grid_neighbours [OF h] h show ?thesis
    by auto
qed

text \<open>
  C7. On a grid with no cell on, \<^verbatim>\<open>update\<close> leaves \<^verbatim>\<open>on_cells\<close> empty: the grid
  is returned as it was, whatever its size.
\<close>

theorem empty_fixed:
  assumes "on_cells g = {}"
  shows "update g = Inr g"
  using assms by (simp add: update_def)

theorem empty_fixed_witness:
  "on_cells (init 5) = {} \<and> update (init 5) = Inr (init 5) \<and>
   update (init 0) = Inr (init 0)"
  using empty_fixed [of "init 5"] empty_fixed [of "init 0"]
  by (simp add: init_def)

text \<open>
  C8. \<^verbatim>\<open>turn_on\<close> is the union of \<^verbatim>\<open>on_cells\<close> with the cells given and
  \<^verbatim>\<open>turn_off\<close> the difference. Turning on cells that are on, or turning off cells
  that are off, changes nothing, and doing either a second time changes nothing more.
\<close>

theorem turn_on_off_sets:
  "on_cells (turn_on g cells) = on_cells g \<union> set cells \<and>
   on_cells (turn_off g cells) = on_cells g - set cells \<and>
   (set cells \<subseteq> on_cells g \<longrightarrow> turn_on g cells = g) \<and>
   (set cells \<inter> on_cells g = {} \<longrightarrow> turn_off g cells = g) \<and>
   turn_on (turn_on g cells) cells = turn_on g cells \<and>
   turn_off (turn_off g cells) cells = turn_off g cells"
proof -
  have "set cells \<subseteq> on_cells g \<longrightarrow> on_cells g \<union> set cells = on_cells g"
    and "set cells \<inter> on_cells g = {} \<longrightarrow> on_cells g - set cells = on_cells g"
    by blast+
  then show ?thesis
    by (simp add: turn_on_def turn_off_def)
qed

theorem turn_on_off_sets_witness:
  "turn_on \<lparr>size = 5, on_cells = {(1, 1)}\<rparr> [(1, 1)] = \<lparr>size = 5, on_cells = {(1, 1)}\<rparr> \<and>
   turn_off \<lparr>size = 5, on_cells = {(1, 1)}\<rparr> [(2, 2)] = \<lparr>size = 5, on_cells = {(1, 1)}\<rparr> \<and>
   on_cells (turn_on \<lparr>size = 5, on_cells = {(1, 1)}\<rparr> [(2, 2)]) = {(1, 1), (2, 2)} \<and>
   on_cells (turn_off \<lparr>size = 5, on_cells = {(1, 1)}\<rparr> [(1, 1)]) = {}"
  using turn_on_off_sets [of "\<lparr>size = 5, on_cells = {(1, 1)}\<rparr>" "[(1, 1)]"]
    turn_on_off_sets [of "\<lparr>size = 5, on_cells = {(1, 1)}\<rparr>" "[(2, 2)]"]
  by auto

text \<open>
  C9. No operation changes \<^verbatim>\<open>size\<close>: \<^verbatim>\<open>turn_on\<close>, \<^verbatim>\<open>turn_off\<close> and
  \<^verbatim>\<open>update\<close> return the grid they were given with at most \<^verbatim>\<open>on_cells\<close> replaced,
  and \<^verbatim>\<open>update\<close> does return on every grid whose size is not 0.
\<close>

theorem size_fixed:
  "size (turn_on g cells) = size g \<and> (\<exists>s. turn_on g cells = g\<lparr>on_cells := s\<rparr>) \<and>
   size (turn_off g cells) = size g \<and> (\<exists>s. turn_off g cells = g\<lparr>on_cells := s\<rparr>) \<and>
   (\<forall>g'. update g = Inr g' \<longrightarrow> size g' = size g \<and> (\<exists>s. g' = g\<lparr>on_cells := s\<rparr>)) \<and>
   (size g \<noteq> 0 \<longrightarrow> (\<exists>g'. update g = Inr g' \<and> size g' = size g))"
proof -
  have 1: "size (turn_on g cells) = size g" "size (turn_off g cells) = size g"
    by (simp_all add: turn_on_def turn_off_def)
  have 2: "\<exists>s. turn_on g cells = g\<lparr>on_cells := s\<rparr>"
    "\<exists>s. turn_off g cells = g\<lparr>on_cells := s\<rparr>"
    unfolding turn_on_def turn_off_def by blast+
  have 3: "size g' = size g \<and> (\<exists>s. g' = g\<lparr>on_cells := s\<rparr>)" if "update g = Inr g'" for g'
  proof -
    from update_cases [OF that] obtain s where s: "g' = g\<lparr>on_cells := s\<rparr>" ..
    then have "size g' = size g"
      by simp
    with s show ?thesis
      by blast
  qed
  have 4: "\<exists>g'. update g = Inr g' \<and> size g' = size g" if "size g \<noteq> 0"
  proof -
    from update_returns [OF that] obtain s where "update g = Inr (g\<lparr>on_cells := s\<rparr>)" ..
    then show ?thesis
      by simp
  qed
  from 1 2 3 4 show ?thesis
    by blast
qed

theorem size_fixed_witness:
  "size (turn_on \<lparr>size = 5, on_cells = {(1, 1)}\<rparr> [(2, 2)]) = 5 \<and>
   size (turn_off \<lparr>size = 5, on_cells = {(1, 1)}\<rparr> [(1, 1)]) = 5 \<and>
   (\<exists>g'. update \<lparr>size = 5, on_cells = {(1, 1)}\<rparr> = Inr g' \<and> size g' = 5)"
  using size_fixed [of "\<lparr>size = 5, on_cells = {(1, 1)}\<rparr>" "[(2, 2)]"]
    size_fixed [of "\<lparr>size = 5, on_cells = {(1, 1)}\<rparr>" "[(1, 1)]"]
  by simp

text \<open>
  C10. On a grid of size 1, \<^verbatim>\<open>neighbours((0, 0))\<close> is the empty set, and
  \<^verbatim>\<open>update\<close> leaves no cell on, whatever in-range cells were on before.
\<close>

theorem size_one_dies:
  assumes "size g = 1"
  shows "neighbours g (0, 0) = Inr {} \<and>
         (all_in_range g \<longrightarrow> update g = Inr (g\<lparr>on_cells := {}\<rparr>))"
proof -
  have e: "nbr_set 1 c = {}" if "c = (0, 0)" for c
    using that by (auto simp: nbr_set_def)
  have "next_gen g = {}" if "all_in_range g"
  proof -
    from that assms have "on_cells g \<subseteq> {(0, 0)}"
      by (auto simp: all_in_range_def in_range_def)
    then show ?thesis
      using assms by (auto simp: next_gen_def on_count_def e)
  qed
  then show ?thesis
    using assms finite_all_in_range [of g]
    by (auto simp: neighbours_eq e update_eq)
qed

theorem size_one_dies_witness:
  "size \<lparr>size = 1, on_cells = {(0, 0)}\<rparr> = 1 \<and>
   all_in_range \<lparr>size = 1, on_cells = {(0, 0)}\<rparr> \<and>
   neighbours \<lparr>size = 1, on_cells = {(0, 0)}\<rparr> (0, 0) = Inr {} \<and>
   update \<lparr>size = 1, on_cells = {(0, 0)}\<rparr> = Inr \<lparr>size = 1, on_cells = {}\<rparr>"
proof -
  let ?g = "\<lparr>size = 1, on_cells = {(0, 0)}\<rparr>"
  have h: "size ?g = 1" "all_in_range ?g"
    by (simp_all add: all_in_range_def in_range_def)
  from size_one_dies [OF h(1)] h show ?thesis
    by simp
qed

end
